theory Spec2Isabelle
  imports Complex_Main
begin

section \<open>Python values\<close>

text \<open>
  The classifier of \<^verbatim>\<open>behaviour_analysis.py\<close> reads a table of joint coordinates with
  pandas; every coordinate is an IEEE 754 binary64 value. The special values are modelled
  one by one: \<open>NaN\<close> (a missing coordinate), the two infinities and the negative zero.
  \<open>Fin x\<close> is the finite value \<open>x\<close>; \<open>Fin 0\<close> is the positive zero. Arithmetic on
  finite values is exact: rounding, overflow and underflow of the geometry are left out.
  The normalisation of the three scores, whose operands are Python integers, is modelled
  with its rounding (section \<open>Correctly rounded division\<close>).
\<close>

datatype pyfloat = Fin real | NegZero | PosInf | NegInf | NaN

datatype error = ValueError | ZeroDivisionError | IndexError | KeyError

definition bind_res :: "error + 'a \<Rightarrow> ('a \<Rightarrow> error + 'b) \<Rightarrow> error + 'b" where
  "bind_res m f = (case m of Inl e \<Rightarrow> Inl e | Inr x \<Rightarrow> f x)"

fun is_nan :: "pyfloat \<Rightarrow> bool" where
  "is_nan NaN = True"
| "is_nan _ = False"

fun is_inf :: "pyfloat \<Rightarrow> bool" where
  "is_inf PosInf = True"
| "is_inf NegInf = True"
| "is_inf _ = False"

fun is_finite :: "pyfloat \<Rightarrow> bool" where
  "is_finite (Fin x) = True"
| "is_finite NegZero = True"
| "is_finite _ = False"

text \<open>The sign bit of a value (set for the negative zero) and the real a finite value denotes.\<close>

fun sign_bit :: "pyfloat \<Rightarrow> bool" where
  "sign_bit (Fin x) = (x < 0)"
| "sign_bit NegZero = True"
| "sign_bit NegInf = True"
| "sign_bit PosInf = False"
| "sign_bit NaN = False"

fun real_of :: "pyfloat \<Rightarrow> real" where
  "real_of (Fin x) = x"
| "real_of _ = 0"

text \<open>Unary minus: \<open>-(+0.0)\<close> is \<open>-0.0\<close>.\<close>

fun fneg :: "pyfloat \<Rightarrow> pyfloat" where
  "fneg (Fin x) = (if x = 0 then NegZero else Fin (- x))"
| "fneg NegZero = Fin 0"
| "fneg PosInf = NegInf"
| "fneg NegInf = PosInf"
| "fneg NaN = NaN"

text \<open>
  Addition: \<open>inf + -inf\<close> is NaN; a sum of zeros is \<open>-0.0\<close> only when both are; a sum
  of two finite values that cancel is \<open>+0.0\<close>.
\<close>

fun fadd :: "pyfloat \<Rightarrow> pyfloat \<Rightarrow> pyfloat" where
  "fadd NaN b = NaN"
| "fadd a NaN = NaN"
| "fadd PosInf NegInf = NaN"
| "fadd NegInf PosInf = NaN"
| "fadd PosInf b = PosInf"
| "fadd a PosInf = PosInf"
| "fadd NegInf b = NegInf"
| "fadd a NegInf = NegInf"
| "fadd NegZero NegZero = NegZero"
| "fadd NegZero (Fin y) = Fin y"
| "fadd (Fin x) NegZero = Fin x"
| "fadd (Fin x) (Fin y) = Fin (x + y)"

definition fsub :: "pyfloat \<Rightarrow> pyfloat \<Rightarrow> pyfloat" where
  "fsub a b = fadd a (fneg b)"

text \<open>\<^verbatim>\<open>x ** 2\<close> on a numpy float64.\<close>

fun fpow2 :: "pyfloat \<Rightarrow> pyfloat" where
  "fpow2 (Fin x) = Fin (x * x)"
| "fpow2 NegZero = Fin 0"
| "fpow2 PosInf = PosInf"
| "fpow2 NegInf = PosInf"
| "fpow2 NaN = NaN"

text \<open>\<^verbatim>\<open>x / 2\<close>.\<close>

fun fdiv_2 :: "pyfloat \<Rightarrow> pyfloat" where
  "fdiv_2 (Fin x) = Fin (x / 2)"
| "fdiv_2 a = a"

text \<open>
  \<^verbatim>\<open>math.sqrt\<close>: raises \<^verbatim>\<open>ValueError\<close> (math domain error) below zero and at
  \<open>-inf\<close>; NaN, \<open>+inf\<close> and \<open>-0.0\<close> are returned unchanged.
\<close>

fun py_sqrt :: "pyfloat \<Rightarrow> error + pyfloat" where
  "py_sqrt (Fin x) = (if x < 0 then Inl ValueError else Inr (Fin (sqrt x)))"
| "py_sqrt NegInf = Inl ValueError"
| "py_sqrt a = Inr a"

text \<open>\<^verbatim>\<open>abs\<close> clears the sign bit.\<close>

fun py_abs :: "pyfloat \<Rightarrow> pyfloat" where
  "py_abs (Fin x) = Fin \<bar>x\<bar>"
| "py_abs NegZero = Fin 0"
| "py_abs PosInf = PosInf"
| "py_abs NegInf = PosInf"
| "py_abs NaN = NaN"

text \<open>\<^verbatim>\<open>math.degrees(x)\<close> is \<^verbatim>\<open>x * (180 / pi)\<close>.\<close>

fun py_degrees :: "pyfloat \<Rightarrow> pyfloat" where
  "py_degrees (Fin x) = Fin (x * (180 / pi))"
| "py_degrees a = a"

text \<open>
  \<^verbatim>\<open>math.atan2(y, x)\<close>, with the special cases of C99 Annex F.9.1.4: the result
  carries the sign of \<open>y\<close>, also when \<open>y\<close> is a zero, so that \<open>atan2(+0.0, -1)\<close> is
  \<open>pi\<close> and \<open>atan2(-0.0, -1)\<close> is \<open>-pi\<close>.
\<close>

definition with_sign :: "real \<Rightarrow> pyfloat \<Rightarrow> pyfloat" where
  "with_sign m y = (if sign_bit y then fneg (Fin m) else Fin m)"

definition py_atan2 :: "pyfloat \<Rightarrow> pyfloat \<Rightarrow> pyfloat" where
  "py_atan2 y x =
     (if is_nan y \<or> is_nan x then NaN
      else if is_inf y then
        (if x = PosInf then with_sign (pi / 4) y
         else if x = NegInf then with_sign (3 * pi / 4) y
         else with_sign (pi / 2) y)
      else if x = PosInf then with_sign 0 y
      else if x = NegInf then with_sign pi y
      else if real_of y = 0 then (if sign_bit x then with_sign pi y else with_sign 0 y)
      else if real_of x = 0 then with_sign (pi / 2) y
      else if 0 < real_of x then Fin (arctan (real_of y / real_of x))
      else if 0 < real_of y then Fin (arctan (real_of y / real_of x) + pi)
      else Fin (arctan (real_of y / real_of x) - pi))"

text \<open>
  Comparisons: false as soon as an operand is NaN; the two zeros are equal;
  \<open>-inf\<close> is below and \<open>+inf\<close> above every finite value.
\<close>

fun flt :: "pyfloat \<Rightarrow> pyfloat \<Rightarrow> bool" where
  "flt NaN b = False"
| "flt a NaN = False"
| "flt a NegInf = False"
| "flt PosInf b = False"
| "flt NegInf b = True"
| "flt a PosInf = True"
| "flt a b = (real_of a < real_of b)"

definition fgt :: "pyfloat \<Rightarrow> pyfloat \<Rightarrow> bool" where
  "fgt a b = flt b a"

section \<open>Correctly rounded division\<close>

text \<open>
  The raw scores are Python integers, so \<^verbatim>\<open>v / total\<close> is the true division of two
  integers: the binary64 value nearest to the quotient, ties to even. Multiplying that
  by \<^verbatim>\<open>100\<close> rounds once more. A finite double is kept as a significand and an
  exponent, \<open>(m, s)\<close> for \<open>m * 2 ^ s\<close>. The quotients and products of this program lie
  between \<open>1/300\<close> and \<open>100\<close>, far from overflow and from the subnormal range, which
  are not modelled.
\<close>

type_synonym dbl = "int \<times> int"

definition dbl_value :: "dbl \<Rightarrow> real" where
  "dbl_value d = (case d of (m, s) \<Rightarrow> of_int m * 2 ^ nat s / 2 ^ nat (- s))"

text \<open>\<^verbatim>\<open>int.bit_length\<close>, on a positive integer.\<close>

fun bit_length :: "int \<Rightarrow> nat" where
  "bit_length n = (if n \<le> 0 then 0 else Suc (bit_length (n div 2)))"

text \<open>The exponent \<open>e\<close> with \<open>2 ^ e \<le> a / b < 2 ^ (e + 1)\<close>, for positive \<open>a\<close> and \<open>b\<close>.\<close>

definition binade :: "int \<Rightarrow> int \<Rightarrow> int" where
  "binade a b =
     (let d = int (bit_length a) - int (bit_length b)
      in if b * 2 ^ nat d \<le> a * 2 ^ nat (- d) then d else d - 1)"

text \<open>The integer nearest to \<open>n / d\<close>, ties to the even one, for \<open>0 \<le> n\<close> and \<open>0 < d\<close>.\<close>

definition round_half_even :: "int \<Rightarrow> int \<Rightarrow> int" where
  "round_half_even n d =
     (let q = n div d; r = n mod d
      in if 2 * r < d then q
         else if d < 2 * r then q + 1
         else if even q then q else q + 1)"

text \<open>The double nearest to \<open>a / b\<close>, for \<open>0 \<le> a\<close> and \<open>0 < b\<close>: a significand of 53 bits.\<close>

definition round_ratio :: "int \<Rightarrow> int \<Rightarrow> dbl" where
  "round_ratio a b =
     (if a = 0 then (0, 0)
      else let s = binade a b - 52
           in (round_half_even (a * 2 ^ nat (- s)) (b * 2 ^ nat s), s))"

definition round_signed :: "int \<Rightarrow> int \<Rightarrow> dbl" where
  "round_signed a b = (case round_ratio \<bar>a\<bar> b of (m, s) \<Rightarrow> (sgn a * m, s))"

text \<open>\<^verbatim>\<open>a / b\<close> on two Python integers; a zero divisor raises.\<close>

definition py_truediv :: "int \<Rightarrow> int \<Rightarrow> error + dbl" where
  "py_truediv a b =
     (if b = 0 then Inl ZeroDivisionError else Inr (round_signed (a * sgn b) \<bar>b\<bar>))"

text \<open>\<^verbatim>\<open>x * k\<close> for a double \<open>x\<close> and an integer \<open>k\<close> that converts exactly (here 100).\<close>

definition dbl_mul_int :: "dbl \<Rightarrow> int \<Rightarrow> dbl" where
  "dbl_mul_int x k =
     (case x of (m, s) \<Rightarrow> round_signed (m * k * 2 ^ nat s) (2 ^ nat (- s)))"

section \<open>The analyser\<close>

text \<open>
  A row of the table (\<^verbatim>\<open>self.data.iloc[i]\<close>) is read by column name. The columns
  are the thirty of \<^verbatim>\<open>pre_processing.py\<close>, present in every row, so that a row is
  a function from column names to values.
\<close>

type_synonym row = "string \<Rightarrow> pyfloat"

definition calculate_distance ::
  "pyfloat \<Rightarrow> pyfloat \<Rightarrow> pyfloat \<Rightarrow> pyfloat \<Rightarrow> error + pyfloat" where
  "calculate_distance x1 y1 x2 y2 =
     py_sqrt (fadd (fpow2 (fsub x2 x1)) (fpow2 (fsub y2 y1)))"

definition calculate_angle ::
  "pyfloat \<times> pyfloat \<Rightarrow> pyfloat \<times> pyfloat \<Rightarrow> pyfloat \<times> pyfloat \<Rightarrow> pyfloat" where
  "calculate_angle point1 point2 point3 =
     (case point1 of (x1, y1) \<Rightarrow>
      case point2 of (x2, y2) \<Rightarrow>
      case point3 of (x3, y3) \<Rightarrow>
        let angle = py_degrees (fsub (py_atan2 (fsub y3 y2) (fsub x3 x2))
                                     (py_atan2 (fsub y1 y2) (fsub x1 x2)))
        in py_abs angle)"

definition get_joint_coordinates :: "row \<Rightarrow> string \<Rightarrow> pyfloat \<times> pyfloat" where
  "get_joint_coordinates r joint = (r (joint @ ''_x''), r (joint @ ''_y''))"

definition calculate_velocity :: "row \<Rightarrow> row option \<Rightarrow> string \<Rightarrow> error + pyfloat" where
  "calculate_velocity current_frame previous_frame joint =
     (case previous_frame of
        None \<Rightarrow> Inr (Fin 0)
      | Some prev \<Rightarrow>
          (case get_joint_coordinates current_frame joint of (curr_x, curr_y) \<Rightarrow>
           case get_joint_coordinates prev joint of (prev_x, prev_y) \<Rightarrow>
             calculate_distance curr_x curr_y prev_x prev_y))"

definition calculate_centre_hip ::
  "pyfloat \<Rightarrow> pyfloat \<Rightarrow> pyfloat \<Rightarrow> pyfloat \<Rightarrow> pyfloat \<times> pyfloat" where
  "calculate_centre_hip left_hip_x left_hip_y right_hip_x right_hip_y =
     (fdiv_2 (fadd left_hip_x right_hip_x), fdiv_2 (fadd left_hip_y right_hip_y))"

definition analyze_sitting :: "row \<Rightarrow> row option \<Rightarrow> error + int" where
  "analyze_sitting r prev_row =
     bind_res (calculate_distance (r ''left_hip_x'') (r ''left_hip_y'')
                 (r ''left_knee_x'') (r ''left_knee_y'')) (\<lambda>left_hip_to_knee.
     bind_res (calculate_distance (r ''right_hip_x'') (r ''right_hip_y'')
                 (r ''right_knee_x'') (r ''right_knee_y'')) (\<lambda>right_hip_to_knee.
     let centre = calculate_centre_hip (r ''left_hip_x'') (r ''left_hip_y'')
                    (r ''right_hip_x'') (r ''right_hip_y'');
         torso_angle = calculate_angle (r ''head_x'', r ''head_y'')
                         (r ''torso_x'', r ''torso_y'') centre
     in
     bind_res (case prev_row of
                 None \<Rightarrow> Inr 0
               | Some p \<Rightarrow>
                   bind_res (calculate_velocity r prev_row ''torso'') (\<lambda>movement.
                     Inr (if flt movement (Fin 50) then 0 + 35 else 0))) (\<lambda>confidence1.
     let confidence2 =
           (if flt left_hip_to_knee (Fin 100) \<and> flt right_hip_to_knee (Fin 100)
            then confidence1 + 35 else confidence1);
         confidence3 =
           (if flt (Fin 100) torso_angle \<and> flt torso_angle (Fin 178)
            then confidence2 + 30 else confidence2)
     in Inr (min confidence3 100))))"

definition analyze_climbing :: "row \<Rightarrow> row option \<Rightarrow> error + int" where
  "analyze_climbing r prev_row =
     bind_res (calculate_distance (r ''left_shoulder_x'') (r ''left_shoulder_y'')
                 (r ''left_hand_x'') (r ''left_hand_y'')) (\<lambda>left_arm_extension.
     bind_res (calculate_distance (r ''right_shoulder_x'') (r ''right_shoulder_y'')
                 (r ''right_hand_x'') (r ''right_hand_y'')) (\<lambda>right_arm_extension.
     let hands_elevated = (flt (r ''left_hand_y'') (r ''torso_y'') \<and>
                           flt (r ''right_hand_y'') (r ''torso_y''));
         feet_hanging = (fgt (r ''left_foot_y'') (r ''torso_y'') \<and>
                         fgt (r ''right_foot_y'') (r ''torso_y''));
         confidence1 =
           (if fgt left_arm_extension (Fin 125) \<or> fgt right_arm_extension (Fin 125)
            then 0 + 40 else 0);
         confidence2 = (if hands_elevated then confidence1 + 30 else confidence1);
         confidence3 = (if feet_hanging then confidence2 + 30 else confidence2)
     in Inr (min confidence3 100)))"

definition analyze_walking :: "row \<Rightarrow> row option \<Rightarrow> error + int" where
  "analyze_walking r prev_row =
     bind_res (calculate_distance (r ''left_foot_x'') (r ''left_foot_y'')
                 (r ''right_foot_x'') (r ''right_foot_y'')) (\<lambda>leg_separation.
     let confidence1 =
           (case prev_row of
              None \<Rightarrow> 0
            | Some p \<Rightarrow>
                let horizontal_movement = py_abs (fsub (r ''torso_x'') (p ''torso_x''))
                in if flt (Fin 90) horizontal_movement \<and> flt horizontal_movement (Fin 1000)
                   then 0 + 50 else 0);
         confidence2 =
           (if flt (Fin 115) leg_separation \<and> flt leg_separation (Fin 125)
            then confidence1 + 50 else confidence1)
     in Inr (min confidence2 100))"

text \<open>\<^verbatim>\<open>self.data.iloc[i]\<close>: a position past the last row raises.\<close>

definition iloc :: "row list \<Rightarrow> nat \<Rightarrow> error + row" where
  "iloc data i = (if i < length data then Inr (data ! i) else Inl IndexError)"

text \<open>
  The dictionary comprehension \<^verbatim>\<open>{k: (v / total) * 100 for k, v in confidences.items()}\<close>.
  A Python dictionary keeps the order of insertion, which decides ties later on, so the
  dictionary is an association list.
\<close>

fun normalize_items :: "int \<Rightarrow> (string \<times> int) list \<Rightarrow> error + (string \<times> real) list" where
  "normalize_items total' [] = Inr []"
| "normalize_items total' ((k, v) # kvs) =
     bind_res (py_truediv v total') (\<lambda>q.
     bind_res (normalize_items total' kvs) (\<lambda>rest.
       Inr ((k, dbl_value (dbl_mul_int q 100)) # rest)))"

definition analyze_frame :: "row list \<Rightarrow> nat \<Rightarrow> error + (string \<times> real) list" where
  "analyze_frame data frame_idx =
     bind_res (iloc data frame_idx) (\<lambda>current_row.
     bind_res (if frame_idx > 0
               then bind_res (iloc data (frame_idx - 1)) (\<lambda>p. Inr (Some p))
               else Inr None) (\<lambda>previous_row.
     bind_res (analyze_sitting current_row previous_row) (\<lambda>sitting.
     bind_res (analyze_walking current_row previous_row) (\<lambda>walking.
     bind_res (analyze_climbing current_row previous_row) (\<lambda>climbing.
       let confidences = [(''sitting'', sitting), (''walking'', walking),
                          (''climbing'', climbing)];
           total' = sum_list (map snd confidences)
       in if total' > 0 then normalize_items total' confidences
          else Inr (map (\<lambda>(k, v). (k, real_of_int v)) confidences))))))"

text \<open>
  \<^verbatim>\<open>max(items, key=...)\<close>: the first item is the candidate, and a later item replaces
  it only when its key is strictly greater; an empty sequence raises.
\<close>

fun max_from :: "('a \<Rightarrow> real) \<Rightarrow> 'a \<Rightarrow> 'a list \<Rightarrow> 'a" where
  "max_from key best [] = best"
| "max_from key best (x # xs) = max_from key (if key best < key x then x else best) xs"

definition py_max :: "('a \<Rightarrow> real) \<Rightarrow> 'a list \<Rightarrow> error + 'a" where
  "py_max key xs = (case xs of [] \<Rightarrow> Inl ValueError | x # rest \<Rightarrow> Inr (max_from key x rest))"

text \<open>\<^verbatim>\<open>d[k]\<close> on a dictionary.\<close>

definition dict_get :: "(string \<times> 'a) list \<Rightarrow> string \<Rightarrow> error + 'a" where
  "dict_get d k = (case map_of d k of None \<Rightarrow> Inl KeyError | Some v \<Rightarrow> Inr v)"

text \<open>One row of \<^verbatim>\<open>BehaviorAnalysis.csv\<close>.\<close>

record frame_result =
  Frame :: nat
  Sitting :: real
  Walking :: real
  Climbing :: real
  Classified_Behavior :: string
  Confidence :: real

text \<open>The body of the loop of \<^verbatim>\<open>analyze_all_frames\<close> for one index.\<close>

definition frame_body :: "row list \<Rightarrow> nat \<Rightarrow> error + frame_result" where
  "frame_body data frame_idx =
     bind_res (analyze_frame data frame_idx) (\<lambda>confidences.
     bind_res (py_max snd confidences) (\<lambda>majority.
     case majority of (majority_behavior0, majority_confidence) \<Rightarrow>
     let majority_behavior =
           (if majority_confidence < 40 then ''unknown'' else majority_behavior0)
     in
     bind_res (dict_get confidences ''sitting'') (\<lambda>sitting.
     bind_res (dict_get confidences ''walking'') (\<lambda>walking.
     bind_res (dict_get confidences ''climbing'') (\<lambda>climbing.
       Inr \<lparr>Frame = frame_idx + 1, Sitting = sitting, Walking = walking,
            Climbing = climbing, Classified_Behavior = majority_behavior,
            Confidence = majority_confidence\<rparr>)))))"



section \<open>The rules as the specification words them\<close>

text \<open>
  The planar distance between two points: NaN as soon as a coordinate is missing, the
  square root of the sum of the squared differences on finite coordinates.
\<close>

definition euclidean :: "pyfloat \<times> pyfloat \<Rightarrow> pyfloat \<times> pyfloat \<Rightarrow> pyfloat" where
  "euclidean p q =
     (case fadd (fpow2 (fsub (fst q) (fst p))) (fpow2 (fsub (snd q) (snd p))) of
        Fin v \<Rightarrow> Fin (sqrt v)
      | a \<Rightarrow> a)"

text \<open>The arithmetic mean of two points.\<close>

definition midpoint :: "pyfloat \<times> pyfloat \<Rightarrow> pyfloat \<times> pyfloat \<Rightarrow> pyfloat \<times> pyfloat" where
  "midpoint p q = (fdiv_2 (fadd (fst p) (fst q)), fdiv_2 (fadd (snd p) (snd q)))"

text \<open>Sitting: low movement of the torso since the previous frame, when there is one.\<close>

definition low_movement_bonus :: "row \<Rightarrow> row option \<Rightarrow> int" where
  "low_movement_bonus r prev =
     (case prev of
        None \<Rightarrow> 0
      | Some p \<Rightarrow>
          if flt (euclidean (get_joint_coordinates r ''torso'')
                    (get_joint_coordinates p ''torso'')) (Fin 50)
          then 35 else 0)"

text \<open>Sitting: each hip is close to its knee.\<close>

definition bent_legs_bonus :: "row \<Rightarrow> int" where
  "bent_legs_bonus r =
     (if flt (euclidean (get_joint_coordinates r ''left_hip'')
                (get_joint_coordinates r ''left_knee'')) (Fin 100) \<and>
         flt (euclidean (get_joint_coordinates r ''right_hip'')
                (get_joint_coordinates r ''right_knee'')) (Fin 100)
      then 35 else 0)"

text \<open>Sitting: the angle at the torso between the head and the centre of the hips.\<close>

definition torso_angle :: "row \<Rightarrow> pyfloat" where
  "torso_angle r =
     calculate_angle (get_joint_coordinates r ''head'') (get_joint_coordinates r ''torso'')
       (midpoint (get_joint_coordinates r ''left_hip'')
          (get_joint_coordinates r ''right_hip''))"

definition upright_torso_bonus :: "row \<Rightarrow> int" where
  "upright_torso_bonus r =
     (if flt (Fin 100) (torso_angle r) \<and> flt (torso_angle r) (Fin 178) then 30 else 0)"

text \<open>Walking: the horizontal displacement of the torso, when there is a previous frame.\<close>

definition horizontal_movement_bonus :: "row \<Rightarrow> row option \<Rightarrow> int" where
  "horizontal_movement_bonus r prev =
     (case prev of
        None \<Rightarrow> 0
      | Some p \<Rightarrow>
          if flt (Fin 90) (py_abs (fsub (r ''torso_x'') (p ''torso_x''))) \<and>
             flt (py_abs (fsub (r ''torso_x'') (p ''torso_x''))) (Fin 1000)
          then 50 else 0)"

text \<open>Walking: the distance between the two feet.\<close>

definition leg_separation_bonus :: "row \<Rightarrow> int" where
  "leg_separation_bonus r =
     (if flt (Fin 115) (euclidean (get_joint_coordinates r ''left_foot'')
                          (get_joint_coordinates r ''right_foot'')) \<and>
         flt (euclidean (get_joint_coordinates r ''left_foot'')
                (get_joint_coordinates r ''right_foot'')) (Fin 125)
      then 50 else 0)"

text \<open>Climbing: an arm is extended, both hands are above the torso, both feet below it.\<close>

definition arm_extension_bonus :: "row \<Rightarrow> int" where
  "arm_extension_bonus r =
     (if fgt (euclidean (get_joint_coordinates r ''left_shoulder'')
                (get_joint_coordinates r ''left_hand'')) (Fin 125) \<or>
         fgt (euclidean (get_joint_coordinates r ''right_shoulder'')
                (get_joint_coordinates r ''right_hand'')) (Fin 125)
      then 40 else 0)"

definition hands_elevated_bonus :: "row \<Rightarrow> int" where
  "hands_elevated_bonus r =
     (if flt (r ''left_hand_y'') (r ''torso_y'') \<and> flt (r ''right_hand_y'') (r ''torso_y'')
      then 30 else 0)"

definition feet_hanging_bonus :: "row \<Rightarrow> int" where
  "feet_hanging_bonus r =
     (if fgt (r ''left_foot_y'') (r ''torso_y'') \<and> fgt (r ''right_foot_y'') (r ''torso_y'')
      then 30 else 0)"

text \<open>The three raw scores before the cap.\<close>

definition sitting_contributions :: "row \<Rightarrow> row option \<Rightarrow> int" where
  "sitting_contributions r prev =
     low_movement_bonus r prev + bent_legs_bonus r + upright_torso_bonus r"

definition walking_contributions :: "row \<Rightarrow> row option \<Rightarrow> int" where
  "walking_contributions r prev = horizontal_movement_bonus r prev + leg_separation_bonus r"

definition climbing_contributions :: "row \<Rightarrow> int" where
  "climbing_contributions r =
     arm_extension_bonus r + hands_elevated_bonus r + feet_hanging_bonus r"

text \<open>
  The normalised score \<^verbatim>\<open>(v / total) * 100\<close> as the program computes it, and the
  dictionary of one frame in terms of the rules above.
\<close>

definition normalize :: "int \<Rightarrow> int \<Rightarrow> real" where
  "normalize v t = dbl_value (dbl_mul_int (round_signed v t) 100)"

definition previous_row :: "row list \<Rightarrow> nat \<Rightarrow> row option" where
  "previous_row data i = (if 0 < i then Some (data ! (i - 1)) else None)"

text \<open>A score is normalised when the raw total is positive and left as it is otherwise.\<close>

definition confidence_value :: "int \<Rightarrow> int \<Rightarrow> real" where
  "confidence_value v t = (if 0 < t then normalize v t else real_of_int v)"

definition raw_total :: "row \<Rightarrow> row option \<Rightarrow> int" where
  "raw_total r prev =
     min (sitting_contributions r prev) 100 + min (walking_contributions r prev) 100 +
     min (climbing_contributions r) 100"

definition sitting_confidence :: "row \<Rightarrow> row option \<Rightarrow> real" where
  "sitting_confidence r prev =
     confidence_value (min (sitting_contributions r prev) 100) (raw_total r prev)"

definition walking_confidence :: "row \<Rightarrow> row option \<Rightarrow> real" where
  "walking_confidence r prev =
     confidence_value (min (walking_contributions r prev) 100) (raw_total r prev)"

definition climbing_confidence :: "row \<Rightarrow> row option \<Rightarrow> real" where
  "climbing_confidence r prev =
     confidence_value (min (climbing_contributions r) 100) (raw_total r prev)"

definition frame_confidences :: "row \<Rightarrow> row option \<Rightarrow> (string \<times> real) list" where
  "frame_confidences r prev =
     [(''sitting'', sitting_confidence r prev), (''walking'', walking_confidence r prev),
      (''climbing'', climbing_confidence r prev)]"

text \<open>
  The category the program selects: the first, in the order sitting, walking, climbing,
  among those whose confidence is the greatest. The record of a frame follows.
\<close>

definition selected :: "row \<Rightarrow> row option \<Rightarrow> string \<times> real" where
  "selected r prev =
     (if walking_confidence r prev \<le> sitting_confidence r prev \<and>
         climbing_confidence r prev \<le> sitting_confidence r prev
      then (''sitting'', sitting_confidence r prev)
      else if climbing_confidence r prev \<le> walking_confidence r prev
      then (''walking'', walking_confidence r prev)
      else (''climbing'', climbing_confidence r prev))"

definition frame_record :: "row list \<Rightarrow> nat \<Rightarrow> frame_result" where
  "frame_record data i =
     (let r = data ! i; prev = previous_row data i
      in \<lparr>Frame = i + 1,
          Sitting = sitting_confidence r prev,
          Walking = walking_confidence r prev,
          Climbing = climbing_confidence r prev,
          Classified_Behavior =
            (if snd (selected r prev) < 40 then ''unknown'' else fst (selected r prev)),
          Confidence = snd (selected r prev)\<rparr>)"

text \<open>Two rows used as concrete inputs: every coordinate 0, and every coordinate missing.\<close>

definition zero_row :: row where
  "zero_row = (\<lambda>column. Fin 0)"


text \<open>
  A third row: the left hand 200 below the left shoulder, both feet 10 below the torso,
  every other coordinate 0.
\<close>

definition reaching_row :: row where
  "reaching_row =
     zero_row(''left_hand_y'' := Fin 200, ''left_foot_y'' := Fin 10, ''right_foot_y'' := Fin 10)"

section \<open>The scoring functions never raise\<close>

text \<open>
  A sum of two squares is never below zero, so \<^verbatim>\<open>math.sqrt\<close> never raises in
  \<^verbatim>\<open>calculate_distance\<close>, and the three scoring functions are the rules above.
\<close>

lemma sum_sq_cases:
  "fadd (fpow2 a) (fpow2 b) = NaN \<or> fadd (fpow2 a) (fpow2 b) = PosInf \<or>
   (\<exists>v. 0 \<le> v \<and> fadd (fpow2 a) (fpow2 b) = Fin v)"
  by (cases a; cases b) simp_all

lemma calculate_distance_eq:
  "calculate_distance x1 y1 x2 y2 = Inr (euclidean (x1, y1) (x2, y2))"
  using sum_sq_cases [of "fsub x2 x1" "fsub y2 y1"]
  by (auto simp: calculate_distance_def euclidean_def)

lemma calculate_velocity_eq:
  "calculate_velocity r prev joint =
     Inr (case prev of None \<Rightarrow> Fin 0
          | Some p \<Rightarrow> euclidean (get_joint_coordinates r joint) (get_joint_coordinates p joint))"
  by (simp add: calculate_velocity_def calculate_distance_eq get_joint_coordinates_def
      split: option.splits)

lemma bind_res_Inr [simp]: "bind_res (Inr x) f = f x"
  by (simp add: bind_res_def)

lemma bind_res_Inl [simp]: "bind_res (Inl e) f = Inl e"
  by (simp add: bind_res_def)

lemma analyze_sitting_eq:
  "analyze_sitting r prev = Inr (min (sitting_contributions r prev) 100)"
  by (cases prev)
     (simp_all add: analyze_sitting_def calculate_distance_eq calculate_velocity_eq
      sitting_contributions_def low_movement_bonus_def bent_legs_bonus_def
      upright_torso_bonus_def torso_angle_def midpoint_def calculate_centre_hip_def
      get_joint_coordinates_def Let_def)

lemma analyze_walking_eq:
  "analyze_walking r prev = Inr (min (walking_contributions r prev) 100)"
  by (cases prev)
     (simp_all add: analyze_walking_def calculate_distance_eq
      walking_contributions_def horizontal_movement_bonus_def leg_separation_bonus_def
      get_joint_coordinates_def Let_def)

lemma analyze_climbing_eq:
  "analyze_climbing r prev = Inr (min (climbing_contributions r) 100)"
  by (simp add: analyze_climbing_def calculate_distance_eq
      climbing_contributions_def arm_extension_bonus_def hands_elevated_bonus_def
      feet_hanging_bonus_def get_joint_coordinates_def Let_def)

lemma sitting_contributions_range:
  "sitting_contributions r prev \<in> {0, 30, 35, 65, 70, 100}"
  by (simp add: sitting_contributions_def low_movement_bonus_def bent_legs_bonus_def
      upright_torso_bonus_def split: option.splits)

lemma walking_contributions_range: "walking_contributions r prev \<in> {0, 50, 100}"
  by (simp add: walking_contributions_def horizontal_movement_bonus_def
      leg_separation_bonus_def split: option.splits)

lemma climbing_contributions_range: "climbing_contributions r \<in> {0, 30, 40, 60, 70, 100}"
  by (simp add: climbing_contributions_def arm_extension_bonus_def hands_elevated_bonus_def
      feet_hanging_bonus_def)

lemma sitting_cap: "min (sitting_contributions r prev) 100 = sitting_contributions r prev"
  using sitting_contributions_range [of r prev] by auto

lemma walking_cap: "min (walking_contributions r prev) 100 = walking_contributions r prev"
  using walking_contributions_range [of r prev] by auto

lemma climbing_cap: "min (climbing_contributions r) 100 = climbing_contributions r"
  using climbing_contributions_range [of r] by auto

lemma py_truediv_pos: "0 < t \<Longrightarrow> py_truediv v t = Inr (round_signed v t)"
  by (simp add: py_truediv_def)

lemma analyze_frame_eq:
  assumes "i < length data"
  shows "analyze_frame data i = Inr (frame_confidences (data ! i) (previous_row data i))"
proof -
  have prev: "(if 0 < i then bind_res (iloc data (i - 1)) (\<lambda>p. Inr (Some p)) else Inr None)
      = Inr (previous_row data i)"
    using assms by (auto simp: iloc_def previous_row_def)
  show ?thesis
    unfolding analyze_frame_def prev
    using assms
    by (simp add: iloc_def analyze_sitting_eq analyze_walking_eq analyze_climbing_eq
        frame_confidences_def sitting_confidence_def walking_confidence_def
        climbing_confidence_def confidence_value_def raw_total_def Let_def py_truediv_pos
        normalize_def add.assoc)
qed

lemma analyze_frame_out_of_range: "length data \<le> i \<Longrightarrow> analyze_frame data i = Inl IndexError"
  by (simp add: analyze_frame_def iloc_def)





section \<open>Missing coordinates propagate\<close>

lemma fadd_nan [simp]: "fadd a NaN = NaN" "fadd NaN b = NaN"
  by (cases a) simp_all

lemma fsub_nan [simp]: "fsub a NaN = NaN" "fsub NaN b = NaN"
  by (simp_all add: fsub_def)

lemma flt_nan [simp]: "\<not> flt a NaN" "\<not> flt NaN b"
  by (cases a) simp_all

lemma fgt_nan [simp]: "\<not> fgt a NaN" "\<not> fgt NaN b"
  by (simp_all add: fgt_def)

lemma py_atan2_nan [simp]: "py_atan2 a NaN = NaN" "py_atan2 NaN b = NaN"
  by (simp_all add: py_atan2_def)

lemma is_nan_iff: "is_nan a \<longleftrightarrow> a = NaN"
  by (cases a) simp_all


lemma py_abs_degrees_nan [simp]: "py_abs (py_degrees NaN) = NaN"
  by simp

lemma calculate_angle_nan:
  "is_nan (fst p1) \<or> is_nan (snd p1) \<or> is_nan (fst p2) \<or> is_nan (snd p2) \<or>
   is_nan (fst p3) \<or> is_nan (snd p3) \<Longrightarrow> calculate_angle p1 p2 p3 = NaN"
  by (cases p1; cases p2; cases p3) (auto simp: calculate_angle_def is_nan_iff)

lemma midpoint_nan:
  "is_nan (fst p) \<or> is_nan (fst q) \<Longrightarrow> is_nan (fst (midpoint p q))"
  "is_nan (snd p) \<or> is_nan (snd q) \<Longrightarrow> is_nan (snd (midpoint p q))"
  by (auto simp: midpoint_def is_nan_iff)

section \<open>The raw scores\<close>



text \<open>
  C6. Without a previous frame the displacement helper returns 0 and does not raise, the
  two movement rules add nothing, and the sitting and walking scores are those of the
  rules on positions alone. The frame at index 0 is scored without a previous frame.
\<close>

theorem first_frame_has_no_movement_bonus:
  "calculate_velocity r None joint = Inr (Fin 0) \<and>
   low_movement_bonus r None = 0 \<and>
   horizontal_movement_bonus r None = 0 \<and>
   analyze_sitting r None = Inr (min (bent_legs_bonus r + upright_torso_bonus r) 100) \<and>
   analyze_walking r None = Inr (min (leg_separation_bonus r) 100) \<and>
   previous_row (r # rs) 0 = None \<and>
   analyze_frame (r # rs) 0 = Inr (frame_confidences r None)"
  using analyze_frame_eq [of 0 "r # rs"]
  by (simp add: calculate_velocity_eq analyze_sitting_eq analyze_walking_eq
      sitting_contributions_def walking_contributions_def low_movement_bonus_def
      horizontal_movement_bonus_def previous_row_def)

text \<open>
  C10. Each raw score lies in a fixed finite set, so none exceeds 100 and the cap
  \<^verbatim>\<open>min(confidence, 100)\<close> returns the sum of the contributions unchanged.
\<close>

theorem raw_scores_in_finite_sets:
  "analyze_sitting r prev = Inr (sitting_contributions r prev) \<and>
   sitting_contributions r prev \<in> {0, 30, 35, 65, 70, 100} \<and>
   analyze_walking r prev = Inr (walking_contributions r prev) \<and>
   walking_contributions r prev \<in> {0, 50, 100} \<and>
   analyze_climbing r prev = Inr (climbing_contributions r) \<and>
   climbing_contributions r \<in> {0, 30, 40, 60, 70, 100}"
  using sitting_contributions_range [of r prev] walking_contributions_range [of r prev]
    climbing_contributions_range [of r]
  by (simp only: analyze_sitting_eq analyze_walking_eq analyze_climbing_eq sitting_cap
      walking_cap climbing_cap simp_thms)

section \<open>Frames and records\<close>

text \<open>
  \<^verbatim>\<open>max\<close> returns the first of the items whose key is the greatest: every item before
  it has a strictly smaller key, and no item after it has a greater one.
\<close>

lemma max_from_first_max:
  "\<exists>pre post. best # xs = pre @ max_from key best xs # post \<and>
     (\<forall>x\<in>set pre. key x < key (max_from key best xs)) \<and>
     (\<forall>x\<in>set post. key x \<le> key (max_from key best xs))"
proof (induction xs arbitrary: best)
  case Nil
  show ?case by (rule exI [of _ "[]"], rule exI [of _ "[]"]) simp
next
  case (Cons x xs)
  let ?goal = "\<lambda>m. \<exists>pre post. best # x # xs = pre @ m # post \<and>
      (\<forall>y\<in>set pre. key y < key m) \<and> (\<forall>y\<in>set post. key y \<le> key m)"
  show ?case
  proof (cases "key best < key x")
    case True
    from Cons.IH [of x] obtain pre post where
      eq: "x # xs = pre @ max_from key x xs # post" and
      lt: "\<forall>y\<in>set pre. key y < key (max_from key x xs)" and
      le: "\<forall>y\<in>set post. key y \<le> key (max_from key x xs)"
      by blast
    have "key x \<le> key (max_from key x xs)"
    proof (cases pre)
      case Nil
      with eq have "max_from key x xs = x" by (metis append_Nil list.inject)
      then show ?thesis by simp
    next
      case (Cons p ps)
      with eq lt show ?thesis by auto
    qed
    with True have b: "key best < key (max_from key x xs)" by simp
    have "?goal (max_from key x xs)"
      apply (rule exI [of _ "best # pre"], rule exI [of _ post])
      using eq lt le b by simp
    then show ?thesis using True by simp
  next
    case False
    from Cons.IH [of best] obtain pre post where
      eq: "best # xs = pre @ max_from key best xs # post" and
      lt: "\<forall>y\<in>set pre. key y < key (max_from key best xs)" and
      le: "\<forall>y\<in>set post. key y \<le> key (max_from key best xs)"
      by blast
    have "?goal (max_from key best xs)"
    proof (cases pre)
      case Nil
      with eq have m: "max_from key best xs = best" and p: "post = xs"
        by (metis append_Nil list.inject)+
      show ?thesis
        apply (rule exI [of _ "[]"], rule exI [of _ "x # xs"])
        using False le p unfolding m by simp
    next
      case (Cons p ps)
      with eq have pb: "p = best" and xs: "xs = ps @ max_from key best xs # post"
        by (metis append_Cons list.inject)+
      have "key x \<le> key best" using False by simp
      also have "key best < key (max_from key best xs)" using lt Cons pb by simp
      finally have xl: "key x < key (max_from key best xs)" .
      show ?thesis
        apply (rule exI [of _ "best # x # ps"], rule exI [of _ post])
        using xs lt Cons pb xl le by simp
    qed
    then show ?thesis using False by simp
  qed
qed

lemma py_max_frame_confidences:
  "py_max snd (frame_confidences r prev) = Inr (selected r prev)"
  by (auto simp: py_max_def frame_confidences_def selected_def)

lemma frame_body_eq:
  assumes "i < length data"
  shows "frame_body data i = Inr (frame_record data i)"
  unfolding frame_body_def analyze_frame_eq [OF assms] bind_res_Inr py_max_frame_confidences
  by (cases "selected (data ! i) (previous_row data i)")
     (simp add: frame_confidences_def dict_get_def frame_record_def Let_def)



lemma selected_cases:
  "selected r prev = (''sitting'', sitting_confidence r prev) \<or>
   selected r prev = (''walking'', walking_confidence r prev) \<or>
   selected r prev = (''climbing'', climbing_confidence r prev)"
  by (simp add: selected_def)

lemma snd_selected:
  "snd (selected r prev) =
     max (sitting_confidence r prev) (max (walking_confidence r prev) (climbing_confidence r prev))"
  by (auto simp: selected_def)

section \<open>Two concrete frames\<close>

lemma normalize_35_35: "normalize 35 35 = 100"
  by code_simp

lemma normalize_0: "normalize 0 35 = 0"
  by code_simp

lemma zero_row_angle: "torso_angle zero_row = Fin 0"
  by (simp add: torso_angle_def zero_row_def calculate_angle_def get_joint_coordinates_def
      midpoint_def fsub_def py_atan2_def with_sign_def)

lemma zero_row_sitting: "sitting_contributions zero_row None = 35"
  by (simp add: sitting_contributions_def low_movement_bonus_def bent_legs_bonus_def
      upright_torso_bonus_def zero_row_angle)
     (simp add: zero_row_def euclidean_def get_joint_coordinates_def fsub_def)

lemma zero_row_walking: "walking_contributions zero_row None = 0"
  by (simp add: walking_contributions_def horizontal_movement_bonus_def leg_separation_bonus_def
      zero_row_def euclidean_def get_joint_coordinates_def fsub_def)

lemma zero_row_climbing: "climbing_contributions zero_row = 0"
  by (simp add: climbing_contributions_def arm_extension_bonus_def hands_elevated_bonus_def
      feet_hanging_bonus_def fgt_def
      zero_row_def euclidean_def get_joint_coordinates_def fsub_def)

lemma zero_row_confidences:
  "frame_confidences zero_row None = [(''sitting'', 100), (''walking'', 0), (''climbing'', 0)]"
  by (simp add: frame_confidences_def sitting_confidence_def walking_confidence_def
      climbing_confidence_def confidence_value_def raw_total_def zero_row_sitting
      zero_row_walking zero_row_climbing normalize_35_35 normalize_0)


lemma sqrt_40000: "sqrt 40000 = 200"
  by (rule real_sqrt_unique) simp_all

lemma reaching_row_angle: "torso_angle reaching_row = Fin 0"
  by (simp add: torso_angle_def reaching_row_def zero_row_def calculate_angle_def
      get_joint_coordinates_def midpoint_def fsub_def py_atan2_def with_sign_def)

lemma reaching_row_sitting:
  "sitting_contributions reaching_row None = 35"
  "sitting_contributions reaching_row (Some reaching_row) = 70"
  by (simp_all add: sitting_contributions_def low_movement_bonus_def bent_legs_bonus_def
      upright_torso_bonus_def reaching_row_angle)
     (simp_all add: reaching_row_def zero_row_def euclidean_def get_joint_coordinates_def
      fsub_def)

lemma reaching_row_walking:
  "walking_contributions reaching_row None = 0"
  "walking_contributions reaching_row (Some reaching_row) = 0"
  by (simp_all add: walking_contributions_def horizontal_movement_bonus_def
      leg_separation_bonus_def reaching_row_def zero_row_def euclidean_def
      get_joint_coordinates_def fsub_def)

lemma reaching_row_climbing: "climbing_contributions reaching_row = 70"
  by (simp add: climbing_contributions_def arm_extension_bonus_def hands_elevated_bonus_def
      feet_hanging_bonus_def fgt_def reaching_row_def zero_row_def euclidean_def
      get_joint_coordinates_def fsub_def sqrt_40000)

lemma normalize_thirds:
  "normalize 35 105 = 4691249611844266 / 2 ^ 47"
  "normalize 70 105 = 4691249611844266 / 2 ^ 46"
  "normalize 0 105 = 0"
  by code_simp+

lemma normalize_halves: "normalize 70 140 = 50" "normalize 0 140 = 0"
  by code_simp+

lemma reaching_row_first:
  "frame_confidences reaching_row None =
     [(''sitting'', 4691249611844266 / 2 ^ 47), (''walking'', 0),
      (''climbing'', 4691249611844266 / 2 ^ 46)]"
  by (simp add: frame_confidences_def sitting_confidence_def walking_confidence_def
      climbing_confidence_def confidence_value_def raw_total_def reaching_row_sitting
      reaching_row_walking reaching_row_climbing normalize_thirds)

lemma reaching_row_second:
  "frame_confidences reaching_row (Some reaching_row) =
     [(''sitting'', 50), (''walking'', 0), (''climbing'', 50)]"
  by (simp add: frame_confidences_def sitting_confidence_def walking_confidence_def
      climbing_confidence_def confidence_value_def raw_total_def reaching_row_sitting
      reaching_row_walking reaching_row_climbing normalize_halves)


text \<open>
  C1. For every frame of the table, the label of its record is the name of a category
  whose normalised confidence is the greatest of the three, unless that greatest
  confidence is below 40, where it is \<open>unknown\<close>; in both cases the field
  \<open>Confidence\<close> is the greatest of the three normalised confidences.
\<close>

theorem label_is_argmax_or_unknown:
  assumes "i < length data"
  shows "\<exists>s w c.
     analyze_frame data i = Inr [(''sitting'', s), (''walking'', w), (''climbing'', c)] \<and>
     frame_body data i =
       Inr \<lparr>Frame = i + 1, Sitting = s, Walking = w, Climbing = c,
            Classified_Behavior =
              (if max s (max w c) < 40 then ''unknown''
               else if s = max s (max w c) then ''sitting''
               else if w = max s (max w c) then ''walking''
               else ''climbing''),
            Confidence = max s (max w c)\<rparr>"
  apply (rule exI [of _ "sitting_confidence (data ! i) (previous_row data i)"])
  apply (rule exI [of _ "walking_confidence (data ! i) (previous_row data i)"])
  apply (rule exI [of _ "climbing_confidence (data ! i) (previous_row data i)"])
  by (auto simp: analyze_frame_eq [OF assms] frame_body_eq [OF assms] frame_confidences_def
      frame_record_def Let_def selected_def)


text \<open>
  The table of one row of zeros: only the bent-legs rule fires, the record is labelled
  \<open>sitting\<close> with confidence 100.
\<close>

theorem label_is_argmax_or_unknown_witness:
  "0 < length [zero_row] \<and>
   frame_body [zero_row] 0 =
     Inr \<lparr>Frame = 1, Sitting = 100, Walking = 0, Climbing = 0,
          Classified_Behavior = ''sitting'', Confidence = 100\<rparr>"
proof -
  have len: "0 < length [zero_row]" by simp
  from label_is_argmax_or_unknown [OF len] obtain s w c where
    a: "analyze_frame [zero_row] 0 = Inr [(''sitting'', s), (''walking'', w), (''climbing'', c)]"
    and b: "frame_body [zero_row] 0 =
       Inr \<lparr>Frame = 0 + 1, Sitting = s, Walking = w, Climbing = c,
            Classified_Behavior =
              (if max s (max w c) < 40 then ''unknown''
               else if s = max s (max w c) then ''sitting''
               else if w = max s (max w c) then ''walking''
               else ''climbing''),
            Confidence = max s (max w c)\<rparr>"
    by blast
  from a have "s = 100" "w = 0" "c = 0"
    by (simp_all add: analyze_frame_eq previous_row_def zero_row_confidences)
  with b len show ?thesis by simp
qed


text \<open>
  C5. For every frame of the table the selected category is the first, in the order
  sitting, walking, climbing, among the categories of greatest confidence: every category
  declared before it has a strictly smaller confidence. The record carries its
  confidence, and its name unless the confidence is below 40.
\<close>

theorem ties_go_to_first_declared:
  assumes "i < length data"
  shows "\<exists>confs sel pre post result.
     analyze_frame data i = Inr confs \<and>
     map fst confs = [''sitting'', ''walking'', ''climbing''] \<and>
     py_max snd confs = Inr sel \<and>
     confs = pre @ sel # post \<and>
     (\<forall>x\<in>set pre. snd x < snd sel) \<and>
     (\<forall>x\<in>set post. snd x \<le> snd sel) \<and>
     frame_body data i = Inr result \<and>
     Confidence result = snd sel \<and>
     Classified_Behavior result = (if snd sel < 40 then ''unknown'' else fst sel)"
proof -
  let ?r = "data ! i" and ?p = "previous_row data i"
  let ?confs = "frame_confidences ?r ?p"
  have m: "py_max snd ?confs = Inr (max_from snd (hd ?confs) (tl ?confs))"
    by (simp add: py_max_def frame_confidences_def)
  then have sel: "max_from snd (hd ?confs) (tl ?confs) = selected ?r ?p"
    by (simp add: py_max_frame_confidences)
  from max_from_first_max [of "hd ?confs" "tl ?confs" snd]
  obtain pre post where
    "hd ?confs # tl ?confs = pre @ selected ?r ?p # post"
    "\<forall>x\<in>set pre. snd x < snd (selected ?r ?p)"
    "\<forall>x\<in>set post. snd x \<le> snd (selected ?r ?p)"
    unfolding sel by blast
  moreover have "hd ?confs # tl ?confs = ?confs"
    by (simp add: frame_confidences_def)
  moreover have "map fst ?confs = [''sitting'', ''walking'', ''climbing'']"
    by (simp add: frame_confidences_def)
  ultimately show ?thesis
    using analyze_frame_eq [OF assms] frame_body_eq [OF assms] py_max_frame_confidences [of ?r ?p]
    by (intro exI [of _ ?confs] exI [of _ "selected ?r ?p"] exI [of _ pre] exI [of _ post]
        exI [of _ "frame_record data i"]) (simp add: frame_record_def Let_def)
qed

text \<open>
  A table of two equal rows \<open>reaching_row\<close>: at the second frame sitting and climbing
  both have the raw score 70 and the confidence 50, and sitting is selected.
\<close>

theorem ties_go_to_first_declared_witness:
  "1 < length [reaching_row, reaching_row] \<and>
   analyze_frame [reaching_row, reaching_row] 1 =
     Inr [(''sitting'', 50), (''walking'', 0), (''climbing'', 50)] \<and>
   (\<exists>result. frame_body [reaching_row, reaching_row] 1 = Inr result \<and>
      Confidence result = 50 \<and> Classified_Behavior result = ''sitting'')"
proof -
  let ?data = "[reaching_row, reaching_row]"
  have len: "1 < length ?data" by simp
  have a: "analyze_frame ?data 1 = Inr [(''sitting'', 50), (''walking'', 0), (''climbing'', 50)]"
    by (simp add: analyze_frame_eq previous_row_def reaching_row_second)
  from ties_go_to_first_declared [OF len] obtain confs sel result where
    c: "analyze_frame ?data 1 = Inr confs" and
    m: "py_max snd confs = Inr sel" and
    f: "frame_body ?data 1 = Inr result" "Confidence result = snd sel"
       "Classified_Behavior result = (if snd sel < 40 then ''unknown'' else fst sel)"
    by blast
  from c a have "confs = [(''sitting'', 50), (''walking'', 0), (''climbing'', 50)]" by simp
  with m have "sel = (''sitting'', 50)" by (simp add: py_max_def)
  with f len a show ?thesis by simp
qed

section \<open>Rows with missing coordinates\<close>











section \<open>The angle helper\<close>

lemma is_finite_cases: "is_finite a \<Longrightarrow> (\<exists>v. a = Fin v) \<or> a = NegZero"
  by (cases a) simp_all

lemma fsub_finite:
  "is_finite a \<Longrightarrow> is_finite b \<Longrightarrow>
   is_finite (fsub a b) \<and> real_of (fsub a b) = real_of a - real_of b"
  by (cases a; cases b) (simp_all add: fsub_def)

lemma py_degrees_finite:
  "is_finite a \<Longrightarrow> is_finite (py_degrees a) \<and> real_of (py_degrees a) = real_of a * (180 / pi)"
  by (cases a) simp_all

lemma py_abs_finite: "is_finite a \<Longrightarrow> py_abs a = Fin \<bar>real_of a\<bar>"
  by (cases a) simp_all

lemma with_sign_range:
  "0 \<le> m \<Longrightarrow> m \<le> pi \<Longrightarrow>
   is_finite (with_sign m y) \<and> - pi \<le> real_of (with_sign m y) \<and> real_of (with_sign m y) \<le> pi"
  by (auto simp: with_sign_def)

lemma py_atan2_range:
  assumes "is_finite y" "is_finite x"
  shows "is_finite (py_atan2 y x) \<and> - pi \<le> real_of (py_atan2 y x) \<and>
         real_of (py_atan2 y x) \<le> pi"
proof -
  have fin: "\<not> is_nan y" "\<not> is_nan x" "\<not> is_inf y" "x \<noteq> PosInf" "x \<noteq> NegInf"
    using assms by (cases y; cases x; simp)+
  let ?q = "real_of y / real_of x"
  have lo: "- (pi / 2) < arctan ?q" and hi: "arctan ?q < pi / 2"
    by (rule arctan_lbound, rule arctan_ubound)
  consider (zero_y) "real_of y = 0" | (zero_x) "real_of y \<noteq> 0" "real_of x = 0"
    | (right) "real_of y \<noteq> 0" "0 < real_of x"
    | (upper_left) "real_of x < 0" "0 < real_of y"
    | (lower_left) "real_of x < 0" "real_of y < 0"
    by linarith
  then show ?thesis
  proof cases
    case zero_y
    then show ?thesis
      using fin with_sign_range [of pi y] with_sign_range [of 0 y]
      by (simp add: py_atan2_def)
  next
    case zero_x
    then show ?thesis
      using fin with_sign_range [of "pi / 2" y]
      by (simp add: py_atan2_def)
  next
    case right
    then have v: "py_atan2 y x = Fin (arctan ?q)"
      using fin by (simp add: py_atan2_def)
    have b: "- pi \<le> arctan ?q \<and> arctan ?q \<le> pi"
      using lo hi pi_gt_zero by linarith
    show ?thesis unfolding v using b by simp
  next
    case upper_left
    then have v: "py_atan2 y x = Fin (arctan ?q + pi)"
      using fin by (simp add: py_atan2_def)
    from upper_left have "?q < 0" by (simp add: divide_pos_neg)
    then have "arctan ?q < 0" by (simp only: arctan_less_zero_iff)
    then have b: "- pi \<le> arctan ?q + pi \<and> arctan ?q + pi \<le> pi"
      using lo pi_gt_zero by linarith
    show ?thesis unfolding v using b by simp
  next
    case lower_left
    then have v: "py_atan2 y x = Fin (arctan ?q - pi)"
      using fin by (simp add: py_atan2_def)
    from lower_left have "0 < ?q" by (simp add: divide_neg_neg)
    then have "0 < arctan ?q" by (simp only: zero_less_arctan_iff)
    then have b: "- pi \<le> arctan ?q - pi \<and> arctan ?q - pi \<le> pi"
      using hi pi_gt_zero by linarith
    show ?thesis unfolding v using b by simp
  qed
qed

lemma calculate_angle_range:
  assumes "is_finite x1" "is_finite y1" "is_finite x2" "is_finite y2" "is_finite x3"
    "is_finite y3"
  shows "\<exists>v. calculate_angle (x1, y1) (x2, y2) (x3, y3) = Fin v \<and> 0 \<le> v \<and> v \<le> 360"
proof -
  let ?a3 = "py_atan2 (fsub y3 y2) (fsub x3 x2)"
  let ?a1 = "py_atan2 (fsub y1 y2) (fsub x1 x2)"
  have a3: "is_finite ?a3 \<and> - pi \<le> real_of ?a3 \<and> real_of ?a3 \<le> pi"
    using assms by (intro py_atan2_range) (simp_all add: fsub_finite)
  have a1: "is_finite ?a1 \<and> - pi \<le> real_of ?a1 \<and> real_of ?a1 \<le> pi"
    using assms by (intro py_atan2_range) (simp_all add: fsub_finite)
  have d: "is_finite (fsub ?a3 ?a1)" "real_of (fsub ?a3 ?a1) = real_of ?a3 - real_of ?a1"
    using a1 a3 fsub_finite by blast+
  have g: "is_finite (py_degrees (fsub ?a3 ?a1))"
    "real_of (py_degrees (fsub ?a3 ?a1)) = (real_of ?a3 - real_of ?a1) * (180 / pi)"
    using d py_degrees_finite [of "fsub ?a3 ?a1"] by simp_all
  have eq: "calculate_angle (x1, y1) (x2, y2) (x3, y3) =
      Fin \<bar>(real_of ?a3 - real_of ?a1) * (180 / pi)\<bar>"
    using py_abs_finite [OF g(1)] g(2) by (simp add: calculate_angle_def)
  define d where "d = real_of ?a3 - real_of ?a1"
  have "\<bar>d\<bar> \<le> 2 * pi" unfolding d_def using a1 a3 by linarith
  then have "\<bar>d\<bar> * (180 / pi) \<le> 2 * pi * (180 / pi)"
    by (intro mult_right_mono) simp_all
  moreover have "\<bar>d * (180 / pi)\<bar> = \<bar>d\<bar> * (180 / pi)"
    by (simp only: abs_mult) simp
  moreover have "2 * pi * (180 / pi) = 360" by simp
  ultimately have "\<bar>d * (180 / pi)\<bar> \<le> 360" by simp
  with eq show ?thesis unfolding d_def by simp
qed

lemma angle_270:
  "calculate_angle (Fin (- 1), Fin 1) (Fin 0, Fin 0) (Fin (- 1), Fin (- 1)) = Fin 270"
  by (simp add: calculate_angle_def fsub_def py_atan2_def arctan_minus arctan_one)

lemma angle_360:
  "calculate_angle (Fin (- 1), Fin 0) (Fin 0, Fin 0) (Fin (- 1), NegZero) = Fin 360"
  by (simp add: calculate_angle_def fsub_def py_atan2_def with_sign_def)

text \<open>
  C8, as the program has it. \<^verbatim>\<open>calculate_angle\<close> returns the absolute value of the
  difference of the two \<^verbatim>\<open>atan2\<close> values, in degrees. On points with finite
  coordinates the value is a number between 0 and 360, both included; it is NaN as soon
  as a coordinate is NaN; and it is not an interior angle: it is 270 for the points
  \<open>(-1, 1)\<close>, \<open>(0, 0)\<close>, \<open>(-1, -1)\<close>.
\<close>

theorem angle_is_abs_difference_within_360:
  "calculate_angle (x1, y1) (x2, y2) (x3, y3) =
     py_abs (py_degrees (fsub (py_atan2 (fsub y3 y2) (fsub x3 x2))
                              (py_atan2 (fsub y1 y2) (fsub x1 x2)))) \<and>
   (is_finite x1 \<and> is_finite y1 \<and> is_finite x2 \<and> is_finite y2 \<and> is_finite x3 \<and>
    is_finite y3 \<longrightarrow>
      (\<exists>v. calculate_angle (x1, y1) (x2, y2) (x3, y3) = Fin v \<and> 0 \<le> v \<and> v \<le> 360)) \<and>
   (is_nan x1 \<or> is_nan y1 \<or> is_nan x2 \<or> is_nan y2 \<or> is_nan x3 \<or> is_nan y3 \<longrightarrow>
      calculate_angle (x1, y1) (x2, y2) (x3, y3) = NaN) \<and>
   calculate_angle (Fin (- 1), Fin 1) (Fin 0, Fin 0) (Fin (- 1), Fin (- 1)) = Fin 270 \<and>
   flt (Fin 180) (Fin 270)"
  using calculate_angle_range [of x1 y1 x2 y2 x3 y3]
    calculate_angle_nan [of "(x1, y1)" "(x2, y2)" "(x3, y3)"]
  by (simp add: angle_270) (simp add: calculate_angle_def)

text \<open>The points \<open>(-1, 1)\<close>, \<open>(0, 0)\<close>, \<open>(-1, -1)\<close> have finite coordinates.\<close>

theorem angle_is_abs_difference_within_360_witness:
  "is_finite (Fin (- 1)) \<and> is_finite (Fin 1) \<and> is_finite (Fin 0) \<and>
   \<not> is_nan (Fin (- 1)) \<and>
   (\<exists>v. calculate_angle (Fin (- 1), Fin 1) (Fin 0, Fin 0) (Fin (- 1), Fin (- 1)) = Fin v \<and>
      0 \<le> v \<and> v \<le> 360)"
proof -
  have fin: "is_finite (Fin (- 1)) \<and> is_finite (Fin 1) \<and> is_finite (Fin 0) \<and>
      \<not> is_nan (Fin (- 1))"
    by simp
  from angle_is_abs_difference_within_360
    [of "Fin (- 1)" "Fin 1" "Fin 0" "Fin 0" "Fin (- 1)" "Fin (- 1)"]
  have "is_finite (Fin (- 1)) \<and> is_finite (Fin 1) \<and> is_finite (Fin 0) \<and>
      is_finite (Fin 0) \<and> is_finite (Fin (- 1)) \<and> is_finite (Fin (- 1)) \<longrightarrow>
      (\<exists>v. calculate_angle (Fin (- 1), Fin 1) (Fin 0, Fin 0) (Fin (- 1), Fin (- 1)) = Fin v \<and>
        0 \<le> v \<and> v \<le> 360)"
    by (rule conjunct2 [THEN conjunct1])
  with fin show ?thesis by blast
qed

text \<open>
  C8, as the claim has it, fails: the value is not always strictly below 360. With the
  points \<open>(-1, +0.0)\<close>, \<open>(0, +0.0)\<close>, \<open>(-1, -0.0)\<close> the first difference of ordinates
  is \<open>-0.0\<close> and the second \<open>+0.0\<close>, the two \<^verbatim>\<open>atan2\<close> values are \<open>-pi\<close> and \<open>pi\<close>, and
  the result is 360.
\<close>

theorem angle_can_equal_360:
  "calculate_angle (Fin (- 1), Fin 0) (Fin 0, Fin 0) (Fin (- 1), NegZero) = Fin 360 \<and>
   \<not> flt (calculate_angle (Fin (- 1), Fin 0) (Fin 0, Fin 0) (Fin (- 1), NegZero)) (Fin 360)"
  by (simp add: angle_360)

section \<open>The rounding error of the normalisation\<close>

text \<open>
  The quotient of two positive integers is rounded to a significand of 53 bits, so the
  double differs from the quotient by at most the quotient over \<open>2 ^ 53\<close>; so does the
  product by 100.
\<close>

lemma pow2_split: "(2::real) powi s = 2 ^ nat s / 2 ^ nat (- s)"
proof (cases "0 \<le> s")
  case True
  then show ?thesis by (simp add: power_int_def)
next
  case False
  then have "nat s = 0" by simp
  with False show ?thesis by (simp add: power_int_def power_inverse inverse_eq_divide power_one_over)
qed

lemma dbl_value_powi: "dbl_value (m, s) = real_of_int m * 2 powi s"
  by (simp add: dbl_value_def pow2_split)

declare bit_length.simps [simp del]

lemma bit_length_bounds:
  "0 < n \<Longrightarrow> \<exists>k. bit_length n = Suc k \<and> 2 ^ k \<le> n \<and> n < 2 ^ Suc k"
proof (induction n rule: bit_length.induct)
  case (1 n)
  have unfold: "bit_length n = Suc (bit_length (n div 2))"
    using 1(2) by (subst bit_length.simps) simp
  show ?case
  proof (cases "n div 2 \<le> 0")
    case True
    with 1(2) have n1: "n = 1" by linarith
    have "bit_length (n div 2) = 0"
      using True by (subst bit_length.simps) simp
    with unfold have "bit_length n = Suc 0" by simp
    with n1 show ?thesis by simp
  next
    case False
    then have h: "0 < n div 2" by simp
    have "\<not> n \<le> 0" using 1(2) by simp
    from 1(1) [OF this h] obtain k where
      k: "bit_length (n div 2) = Suc k" "2 ^ k \<le> n div 2" "n div 2 < 2 ^ Suc k"
      by blast
    have "bit_length n = Suc (Suc k)" using unfold k(1) by simp
    moreover have "2 ^ Suc k \<le> n"
    proof -
      have "2 * (n div 2) \<le> n" by linarith
      moreover have "(2::int) ^ Suc k = 2 * 2 ^ k" by simp
      ultimately show ?thesis using k(2) by linarith
    qed
    moreover have "n < 2 ^ Suc (Suc k)"
    proof -
      have "n \<le> 2 * (n div 2) + 1" by linarith
      moreover have "(2::int) ^ Suc (Suc k) = 2 * 2 ^ Suc k" by simp
      ultimately show ?thesis using k(3) by linarith
    qed
    ultimately show ?thesis by blast
  qed
qed

lemma binade_lower:
  assumes "0 < a" "0 < b"
  shows "2 powi (binade a b) \<le> real_of_int a / real_of_int b"
proof -
  from bit_length_bounds [OF assms(1)] obtain ka where
    ka: "bit_length a = Suc ka" "2 ^ ka \<le> a" by blast
  from bit_length_bounds [OF assms(2)] obtain kb where
    kb: "bit_length b = Suc kb" "b < 2 ^ Suc kb" by blast
  define d where "d = int (bit_length a) - int (bit_length b)"
  have apos: "0 < real_of_int a" and bpos: "0 < real_of_int b" using assms by simp_all
  show ?thesis
  proof (cases "b * 2 ^ nat d \<le> a * 2 ^ nat (- d)")
    case True
    then have e: "binade a b = d" by (simp add: binade_def Let_def d_def)
    from True have "real_of_int (b * 2 ^ nat d) \<le> real_of_int (a * 2 ^ nat (- d))"
      by (simp only: of_int_le_iff)
    then have "real_of_int b * 2 ^ nat d \<le> real_of_int a * 2 ^ nat (- d)" by simp
    then have "2 ^ nat d / 2 ^ nat (- d) \<le> real_of_int a / real_of_int b"
      using bpos by (simp add: field_simps)
    then show ?thesis unfolding e pow2_split .
  next
    case False
    then have e: "binade a b = int ka - int (Suc kb)"
      using ka(1) kb(1) by (simp add: binade_def Let_def d_def)
    have "(2::real) powi (int ka - int (Suc kb)) = 2 powi (int ka) / 2 powi (int (Suc kb))"
      by (rule power_int_diff) simp
    also have "\<dots> = 2 ^ ka / 2 ^ Suc kb"
      by (simp only: power_int_of_nat)
    also have "\<dots> \<le> real_of_int a / real_of_int b"
    proof (rule frac_le)
      have "real_of_int (2 ^ ka) \<le> real_of_int a" using ka(2) by (simp only: of_int_le_iff)
      then show "(2::real) ^ ka \<le> real_of_int a" by simp
      have "real_of_int b \<le> real_of_int (2 ^ Suc kb)"
        using kb(2) by (simp only: of_int_le_iff)
      then show "real_of_int b \<le> 2 ^ Suc kb" by simp
      show "0 < real_of_int b" by (rule bpos)
      show "0 \<le> real_of_int a" using apos by simp
    qed
    finally show ?thesis unfolding e .
  qed
qed

lemma round_half_even_error:
  assumes "0 < d"
  shows "\<bar>real_of_int (round_half_even n d) - real_of_int n / real_of_int d\<bar> \<le> 1 / 2"
proof -
  define q where "q = n div d"
  define r where "r = n mod d"
  have r: "0 \<le> r" "r < d" using assms by (simp_all add: r_def)
  have "n = d * q + r" by (simp add: q_def r_def)
  then have "real_of_int n = real_of_int d * real_of_int q + real_of_int r"
    by (simp only: of_int_add of_int_mult)
  moreover have dpos: "0 < real_of_int d" using assms by simp
  ultimately have n: "real_of_int n / real_of_int d = real_of_int q + real_of_int r / real_of_int d"
    by (simp add: field_simps)
  define f where "f = real_of_int r / real_of_int d"
  have f0: "0 \<le> f" using r dpos by (simp add: f_def)
  consider (lo) "2 * r < d" | (hi) "d < 2 * r" | (tie) "2 * r = d" by linarith
  then show ?thesis
  proof cases
    case lo
    then have m: "round_half_even n d = q"
      by (simp add: round_half_even_def Let_def q_def r_def)
    from lo have "real_of_int (2 * r) < real_of_int d" by (simp only: of_int_less_iff)
    then have "f < 1 / 2" using dpos by (simp add: f_def field_simps)
    then show ?thesis unfolding m n f_def [symmetric] using f0 by simp
  next
    case hi
    then have m: "round_half_even n d = q + 1"
      by (simp add: round_half_even_def Let_def q_def r_def)
    from hi have "real_of_int d < real_of_int (2 * r)" by (simp only: of_int_less_iff)
    then have "1 / 2 < f" using dpos by (simp add: f_def field_simps)
    moreover have "f < 1" using r dpos by (simp add: f_def)
    ultimately show ?thesis unfolding m n f_def [symmetric] by simp
  next
    case tie
    then have m: "round_half_even n d = q \<or> round_half_even n d = q + 1"
      by (simp add: round_half_even_def Let_def q_def r_def)
    from tie have "real_of_int (2 * r) = real_of_int d" by simp
    then have "f = 1 / 2" using dpos by (simp add: f_def field_simps)
    then show ?thesis using m unfolding n f_def [symmetric] by auto
  qed
qed

lemma round_half_even_nonneg: "0 \<le> n \<Longrightarrow> 0 < d \<Longrightarrow> 0 \<le> round_half_even n d"
  by (simp add: round_half_even_def Let_def pos_imp_zdiv_nonneg_iff)

lemma binade_upper:
  assumes "0 < a" "0 < b"
  shows "real_of_int a / real_of_int b < 2 powi (binade a b + 1)"
proof -
  from bit_length_bounds [OF assms(1)] obtain ka where
    ka: "bit_length a = Suc ka" "a < 2 ^ Suc ka" by blast
  from bit_length_bounds [OF assms(2)] obtain kb where
    kb: "bit_length b = Suc kb" "2 ^ kb \<le> b" by blast
  define d where "d = int (bit_length a) - int (bit_length b)"
  have apos: "0 < real_of_int a" and bpos: "0 < real_of_int b" using assms by simp_all
  show ?thesis
  proof (cases "b * 2 ^ nat d \<le> a * 2 ^ nat (- d)")
    case True
    then have e: "binade a b + 1 = int (Suc ka) - int kb"
      using ka(1) kb(1) by (simp add: binade_def Let_def d_def)
    have "real_of_int a < real_of_int (2 ^ Suc ka)" using ka(2) by (simp only: of_int_less_iff)
    then have a: "real_of_int a < 2 ^ Suc ka" by simp
    have "real_of_int (2 ^ kb) \<le> real_of_int b" using kb(2) by (simp only: of_int_le_iff)
    then have b: "(2::real) ^ kb \<le> real_of_int b" by simp
    have "real_of_int a / real_of_int b < 2 ^ Suc ka / 2 ^ kb"
      by (rule frac_less) (use a b apos in simp_all)
    also have "\<dots> = 2 powi (int (Suc ka)) / 2 powi (int kb)"
      by (simp only: power_int_of_nat)
    also have "\<dots> = 2 powi (int (Suc ka) - int kb)"
      by (rule power_int_diff [symmetric]) simp
    finally show ?thesis unfolding e .
  next
    case False
    then have e: "binade a b + 1 = d" by (simp add: binade_def Let_def d_def)
    from False have "a * 2 ^ nat (- d) < b * 2 ^ nat d" by simp
    then have "real_of_int (a * 2 ^ nat (- d)) < real_of_int (b * 2 ^ nat d)"
      by (simp only: of_int_less_iff)
    then have "real_of_int a * 2 ^ nat (- d) < real_of_int b * 2 ^ nat d" by simp
    then have "real_of_int a / real_of_int b < 2 ^ nat d / 2 ^ nat (- d)"
      using bpos by (simp add: field_simps)
    then show ?thesis unfolding e pow2_split .
  qed
qed

text \<open>The significand of a rounded quotient has 53 bits.\<close>

lemma round_ratio_significand:
  assumes "0 < a" "0 < b"
  shows "2 ^ 52 \<le> fst (round_ratio a b) \<and> fst (round_ratio a b) \<le> 2 ^ 53 \<and>
         snd (round_ratio a b) = binade a b - 52"
proof -
  define s where "s = binade a b - 52"
  define n where "n = a * 2 ^ nat (- s)"
  define d where "d = b * 2 ^ nat s"
  define m where "m = round_half_even n d"
  define P where "P = (2::real) powi s"
  define x where "x = real_of_int a / real_of_int b"
  have rr: "round_ratio a b = (m, s)"
    using assms by (simp add: round_ratio_def Let_def m_def n_def d_def s_def)
  have dpos: "0 < d" using assms by (simp add: d_def)
  have Ppos: "0 < P" by (simp add: P_def)
  have P: "P = 2 ^ nat s / 2 ^ nat (- s)" unfolding P_def by (rule pow2_split)
  have "real_of_int n / real_of_int d =
      (real_of_int a * 2 ^ nat (- s)) / (real_of_int b * 2 ^ nat s)"
    by (simp add: n_def d_def)
  also have "\<dots> = x / P" unfolding P x_def by simp
  finally have nd: "real_of_int n / real_of_int d = x / P" .
  have half: "\<bar>real_of_int m - x / P\<bar> \<le> 1 / 2"
    using round_half_even_error [OF dpos, of n] unfolding m_def nd .
  have "(2::real) powi (binade a b) = 2 powi (s + 52)" by (simp add: s_def)
  also have "\<dots> = P * 2 powi 52" unfolding P_def by (rule power_int_add) simp
  finally have lowP: "P * 2 ^ 52 \<le> x"
    using binade_lower [OF assms] unfolding x_def by simp
  have "binade a b + 1 = s + 53" by (simp add: s_def)
  then have "(2::real) powi (binade a b + 1) = 2 powi (s + 53)" by (rule arg_cong)
  also have "\<dots> = P * 2 powi 53" unfolding P_def by (rule power_int_add) simp
  finally have highP: "x < P * 2 ^ 53"
    using binade_upper [OF assms] unfolding x_def by simp
  have lo: "2 ^ 52 \<le> x / P" using lowP Ppos by (simp add: field_simps)
  have hi: "x / P < 2 ^ 53" using highP Ppos by (simp add: field_simps)
  from half lo have "2 ^ 52 - 1 / 2 \<le> real_of_int m" by linarith
  then have "real_of_int (2 ^ 52 - 1) < real_of_int m" by simp
  then have "2 ^ 52 - 1 < m" by (simp only: of_int_less_iff)
  moreover from half hi have "real_of_int m < 2 ^ 53 + 1 / 2" by linarith
  then have "real_of_int m < real_of_int (2 ^ 53 + 1)" by simp
  then have "m < 2 ^ 53 + 1" by (simp only: of_int_less_iff)
  ultimately show ?thesis unfolding rr s_def by simp
qed

lemma round_ratio_error:
  assumes "0 < a" "0 < b"
  shows "\<bar>dbl_value (round_ratio a b) - real_of_int a / real_of_int b\<bar>
           \<le> real_of_int a / real_of_int b / 2 ^ 53 \<and>
         0 \<le> fst (round_ratio a b)"
proof -
  define s where "s = binade a b - 52"
  define n where "n = a * 2 ^ nat (- s)"
  define d where "d = b * 2 ^ nat s"
  define m where "m = round_half_even n d"
  define P where "P = (2::real) powi s"
  define x where "x = real_of_int a / real_of_int b"
  have rr: "round_ratio a b = (m, s)"
    using assms by (simp add: round_ratio_def Let_def m_def n_def d_def s_def)
  have dpos: "0 < d" using assms by (simp add: d_def)
  have nnn: "0 \<le> n" using assms by (simp add: n_def)
  have Ppos: "0 < P" by (simp add: P_def)
  have bpos: "0 < real_of_int b" using assms by simp
  have P: "P = 2 ^ nat s / 2 ^ nat (- s)" unfolding P_def by (rule pow2_split)
  have "real_of_int n / real_of_int d =
      (real_of_int a * 2 ^ nat (- s)) / (real_of_int b * 2 ^ nat s)"
    by (simp add: n_def d_def)
  also have "\<dots> = x / P" unfolding P x_def by simp
  finally have nd: "real_of_int n / real_of_int d = x / P" .
  have "\<bar>real_of_int m - x / P\<bar> \<le> 1 / 2"
    using round_half_even_error [OF dpos, of n] unfolding m_def nd .
  then have "\<bar>real_of_int m - x / P\<bar> * P \<le> 1 / 2 * P"
    using Ppos by (intro mult_right_mono) simp_all
  moreover have "\<bar>real_of_int m - x / P\<bar> * P = \<bar>real_of_int m * P - x\<bar>"
  proof -
    have "\<bar>real_of_int m - x / P\<bar> * P = \<bar>(real_of_int m - x / P) * P\<bar>"
      using Ppos by (simp add: abs_mult)
    also have "(real_of_int m - x / P) * P = real_of_int m * P - x"
      using Ppos by (simp add: field_simps)
    finally show ?thesis .
  qed
  ultimately have e1: "\<bar>real_of_int m * P - x\<bar> \<le> P / 2" by simp
  have "P = 2 powi (binade a b) / 2 powi 52"
    unfolding P_def s_def by (rule power_int_diff) simp
  then have "P / 2 = 2 powi (binade a b) / 2 ^ 53" by simp
  also have "\<dots> \<le> x / 2 ^ 53"
    using binade_lower [OF assms] unfolding x_def by (intro divide_right_mono) simp_all
  finally have "P / 2 \<le> x / 2 ^ 53" .
  with e1 have "\<bar>real_of_int m * P - x\<bar> \<le> x / 2 ^ 53" by linarith
  moreover have "dbl_value (round_ratio a b) = real_of_int m * P"
    unfolding rr P_def by (rule dbl_value_powi)
  moreover have "0 \<le> fst (round_ratio a b)"
    unfolding rr m_def using round_half_even_nonneg [OF nnn dpos] by simp
  ultimately show ?thesis unfolding x_def by simp
qed

lemma round_signed_error:
  assumes "0 \<le> a" "0 < b"
  shows "\<bar>dbl_value (round_signed a b) - real_of_int a / real_of_int b\<bar>
           \<le> real_of_int a / real_of_int b / 2 ^ 53 \<and>
         0 \<le> fst (round_signed a b)"
proof (cases "a = 0")
  case True
  then show ?thesis
    by (simp add: round_signed_def round_ratio_def dbl_value_def)
next
  case False
  with assms have apos: "0 < a" by simp
  then have "round_signed a b = round_ratio a b"
    by (cases "round_ratio a b") (simp add: round_signed_def)
  then show ?thesis using round_ratio_error [OF apos assms(2)] by simp
qed

lemma dbl_mul_int_error:
  assumes "0 \<le> fst x" "0 \<le> k"
  shows "\<bar>dbl_value (dbl_mul_int x k) - dbl_value x * real_of_int k\<bar>
           \<le> dbl_value x * real_of_int k / 2 ^ 53"
proof -
  obtain m s where x: "x = (m, s)" by (cases x)
  define a where "a = m * k * 2 ^ nat s"
  define b where "b = (2::int) ^ nat (- s)"
  have a: "0 \<le> a" using assms x by (simp add: a_def)
  have b: "0 < b" by (simp add: b_def)
  have "real_of_int a / real_of_int b = dbl_value x * real_of_int k"
    by (simp add: a_def b_def x dbl_value_def)
  moreover have "dbl_mul_int x k = round_signed a b"
    by (simp add: dbl_mul_int_def x a_def b_def)
  ultimately show ?thesis using round_signed_error [OF a b] by simp
qed

lemma normalize_error:
  assumes "0 \<le> v" "0 < t"
  shows "\<bar>normalize v t - real_of_int v / real_of_int t * 100\<bar>
           \<le> real_of_int v / real_of_int t * (100 * (2 / 2 ^ 53 + 1 / 2 ^ 106))"
proof -
  define x where "x = real_of_int v / real_of_int t"
  define X where "X = dbl_value (round_signed v t)"
  define Y where "Y = normalize v t"
  define e where "e = (1::real) / 2 ^ 53"
  have x0: "0 \<le> x" using assms by (simp add: x_def)
  have e0: "0 \<le> e" by (simp add: e_def)
  from round_signed_error [OF assms]
  have X: "\<bar>X - x\<bar> \<le> x * e" and m: "0 \<le> fst (round_signed v t)"
    by (simp_all add: X_def x_def e_def)
  from dbl_mul_int_error [OF m, of 100]
  have Y: "\<bar>Y - X * 100\<bar> \<le> X * 100 * e"
    by (simp add: Y_def normalize_def X_def e_def)
  from X have Xle: "X \<le> x + x * e" by linarith
  have "X * 100 * e \<le> (x + x * e) * 100 * e"
    using Xle e0 by (intro mult_right_mono) simp_all
  with Y have Y': "\<bar>Y - X * 100\<bar> \<le> (x + x * e) * 100 * e" by linarith
  have "\<bar>X * 100 - x * 100\<bar> = \<bar>(X - x) * 100\<bar>" by (simp add: algebra_simps)
  also have "\<dots> = \<bar>X - x\<bar> * \<bar>100\<bar>" by (rule abs_mult)
  also have "\<bar>100::real\<bar> = 100" by simp
  finally have "\<bar>X * 100 - x * 100\<bar> = \<bar>X - x\<bar> * 100" .
  then have "\<bar>Y - x * 100\<bar> \<le> \<bar>Y - X * 100\<bar> + \<bar>X - x\<bar> * 100" by linarith
  also have "\<dots> \<le> (x + x * e) * 100 * e + x * e * 100"
  proof (rule add_mono [OF Y'])
    show "\<bar>X - x\<bar> * 100 \<le> x * e * 100" using X by simp
  qed
  also have "\<dots> = x * (100 * (2 * e + e * e))" by (simp add: algebra_simps)
  also have "2 * e + e * e = 2 / 2 ^ 53 + 1 / 2 ^ 106" by (simp add: e_def)
  finally show ?thesis unfolding Y_def x_def .
qed

lemma normalize_sum_error:
  assumes "0 \<le> s" "0 \<le> w" "0 \<le> c" "0 < s + w + c"
  shows "\<bar>normalize s (s + w + c) + normalize w (s + w + c) + normalize c (s + w + c) - 100\<bar>
           \<le> 1 / 2 ^ 45"
proof -
  define t where "t = s + w + c"
  define b where "b = (100::real) * (2 / 2 ^ 53 + 1 / 2 ^ 106)"
  have tpos: "0 < t" using assms by (simp add: t_def)
  have rt: "0 < real_of_int t" using tpos by simp
  have es: "\<bar>normalize s t - real_of_int s / real_of_int t * 100\<bar> \<le> real_of_int s / real_of_int t * b"
    unfolding b_def by (rule normalize_error [OF assms(1) tpos])
  have ew: "\<bar>normalize w t - real_of_int w / real_of_int t * 100\<bar> \<le> real_of_int w / real_of_int t * b"
    unfolding b_def by (rule normalize_error [OF assms(2) tpos])
  have ec: "\<bar>normalize c t - real_of_int c / real_of_int t * 100\<bar> \<le> real_of_int c / real_of_int t * b"
    unfolding b_def by (rule normalize_error [OF assms(3) tpos])
  have "real_of_int s / real_of_int t + real_of_int w / real_of_int t +
      real_of_int c / real_of_int t =
      (real_of_int s + real_of_int w + real_of_int c) / real_of_int t"
    by (simp only: add_divide_distrib)
  also have "real_of_int s + real_of_int w + real_of_int c = real_of_int t"
    by (simp add: t_def)
  also have "real_of_int t / real_of_int t = 1" using rt by simp
  finally have one: "real_of_int s / real_of_int t + real_of_int w / real_of_int t +
      real_of_int c / real_of_int t = 1" .
  have scale: "p * k + q * k + u * k = (p + q + u) * k" for p q u k :: real
    by (simp add: algebra_simps)
  have hundred: "real_of_int s / real_of_int t * 100 + real_of_int w / real_of_int t * 100 +
      real_of_int c / real_of_int t * 100 = 100"
    unfolding scale one by simp
  have bound: "real_of_int s / real_of_int t * b + real_of_int w / real_of_int t * b +
      real_of_int c / real_of_int t * b = b"
    unfolding scale one by simp
  have "\<bar>normalize s t + normalize w t + normalize c t - 100\<bar> \<le> b"
    using es ew ec hundred bound by linarith
  moreover have "b \<le> 1 / 2 ^ 45" by (simp add: b_def)
  ultimately show ?thesis unfolding t_def by linarith
qed

lemma normalize_close:
  assumes "0 \<le> v" "v \<le> t" "0 < t"
  shows "\<bar>normalize v t - real_of_int v / real_of_int t * 100\<bar> \<le> 1 / 2 ^ 45"
proof -
  have "real_of_int v / real_of_int t \<le> 1" using assms by simp
  moreover have "0 \<le> real_of_int v / real_of_int t" using assms by simp
  ultimately have "real_of_int v / real_of_int t * (100 * (2 / 2 ^ 53 + 1 / 2 ^ 106))
      \<le> 1 * (100 * (2 / 2 ^ 53 + 1 / 2 ^ 106))"
    by (intro mult_right_mono) simp_all
  also have "\<dots> \<le> 1 / 2 ^ 45" by simp
  finally show ?thesis using normalize_error [OF assms(1,3)] by linarith
qed

text \<open>
  C2, as the program has it. For every frame of the table the three raw scores are not
  negative. When their sum is positive, each confidence is the double the program
  computes for \<^verbatim>\<open>(v / total) * 100\<close>, within \<open>2 ^ -45\<close> of the exact
  \<open>v / total * 100\<close>, and the three confidences add up to 100 within \<open>2 ^ -45\<close>. When
  the sum is not positive the three raw scores are 0, nothing is divided, and the three
  confidences are 0.
\<close>

theorem confidences_sum_to_100_within_rounding:
  assumes "i < length data"
  shows "\<exists>s w c.
     analyze_sitting (data ! i) (previous_row data i) = Inr s \<and>
     analyze_walking (data ! i) (previous_row data i) = Inr w \<and>
     analyze_climbing (data ! i) (previous_row data i) = Inr c \<and>
     0 \<le> s \<and> 0 \<le> w \<and> 0 \<le> c \<and>
     (if 0 < s + w + c
      then analyze_frame data i =
             Inr [(''sitting'', normalize s (s + w + c)),
                  (''walking'', normalize w (s + w + c)),
                  (''climbing'', normalize c (s + w + c))] \<and>
           \<bar>normalize s (s + w + c) - real_of_int s / real_of_int (s + w + c) * 100\<bar>
             \<le> 1 / 2 ^ 45 \<and>
           \<bar>normalize w (s + w + c) - real_of_int w / real_of_int (s + w + c) * 100\<bar>
             \<le> 1 / 2 ^ 45 \<and>
           \<bar>normalize c (s + w + c) - real_of_int c / real_of_int (s + w + c) * 100\<bar>
             \<le> 1 / 2 ^ 45 \<and>
           \<bar>normalize s (s + w + c) + normalize w (s + w + c) + normalize c (s + w + c)
              - 100\<bar> \<le> 1 / 2 ^ 45
      else s = 0 \<and> w = 0 \<and> c = 0 \<and>
           analyze_frame data i = Inr [(''sitting'', 0), (''walking'', 0), (''climbing'', 0)])"
proof -
  let ?r = "data ! i" and ?p = "previous_row data i"
  define s where "s = sitting_contributions ?r ?p"
  define w where "w = walking_contributions ?r ?p"
  define c where "c = climbing_contributions ?r"
  have nn: "0 \<le> s" "0 \<le> w" "0 \<le> c"
    using sitting_contributions_range [of ?r ?p] walking_contributions_range [of ?r ?p]
      climbing_contributions_range [of ?r]
    by (auto simp: s_def w_def c_def)
  have scores: "analyze_sitting ?r ?p = Inr s" "analyze_walking ?r ?p = Inr w"
    "analyze_climbing ?r ?p = Inr c"
    by (simp_all add: analyze_sitting_eq analyze_walking_eq analyze_climbing_eq sitting_cap
        walking_cap climbing_cap s_def w_def c_def)
  have frame: "analyze_frame data i =
      Inr [(''sitting'', confidence_value s (s + w + c)),
           (''walking'', confidence_value w (s + w + c)),
           (''climbing'', confidence_value c (s + w + c))]"
    by (simp add: analyze_frame_eq [OF assms] frame_confidences_def sitting_confidence_def
        walking_confidence_def climbing_confidence_def raw_total_def sitting_cap walking_cap
        climbing_cap s_def w_def c_def)
  have rest: "if 0 < s + w + c
      then analyze_frame data i =
             Inr [(''sitting'', normalize s (s + w + c)),
                  (''walking'', normalize w (s + w + c)),
                  (''climbing'', normalize c (s + w + c))] \<and>
           \<bar>normalize s (s + w + c) - real_of_int s / real_of_int (s + w + c) * 100\<bar>
             \<le> 1 / 2 ^ 45 \<and>
           \<bar>normalize w (s + w + c) - real_of_int w / real_of_int (s + w + c) * 100\<bar>
             \<le> 1 / 2 ^ 45 \<and>
           \<bar>normalize c (s + w + c) - real_of_int c / real_of_int (s + w + c) * 100\<bar>
             \<le> 1 / 2 ^ 45 \<and>
           \<bar>normalize s (s + w + c) + normalize w (s + w + c) + normalize c (s + w + c)
              - 100\<bar> \<le> 1 / 2 ^ 45
      else s = 0 \<and> w = 0 \<and> c = 0 \<and>
           analyze_frame data i = Inr [(''sitting'', 0), (''walking'', 0), (''climbing'', 0)]"
  proof (cases "0 < s + w + c")
    case True
    have "s \<le> s + w + c" "w \<le> s + w + c" "c \<le> s + w + c" using nn by simp_all
    then show ?thesis
      using True nn frame normalize_close [of s "s + w + c"] normalize_close [of w "s + w + c"]
        normalize_close [of c "s + w + c"] normalize_sum_error [of s w c]
      by (simp add: confidence_value_def)
  next
    case False
    with nn have z: "s = 0" "w = 0" "c = 0" by linarith+
    with frame show ?thesis by (simp add: confidence_value_def)
  qed
  from scores nn rest show ?thesis by blast
qed

text \<open>
  The table of the single row \<open>reaching_row\<close>: the raw scores are 35, 0 and 70, and the
  sum of the confidences is within the bound.
\<close>

theorem confidences_sum_to_100_within_rounding_witness:
  "0 < length [reaching_row] \<and>
   analyze_frame [reaching_row] 0 =
     Inr [(''sitting'', 4691249611844266 / 2 ^ 47), (''walking'', 0),
          (''climbing'', 4691249611844266 / 2 ^ 46)] \<and>
   \<bar>4691249611844266 / 2 ^ 47 + 0 + 4691249611844266 / 2 ^ 46 - 100\<bar> \<le> (1 / 2 ^ 45 :: real)"
proof -
  have len: "0 < length [reaching_row]" by simp
  from confidences_sum_to_100_within_rounding [OF len] obtain s w c where
    a: "analyze_sitting ([reaching_row] ! 0) (previous_row [reaching_row] 0) = Inr s"
       "analyze_walking ([reaching_row] ! 0) (previous_row [reaching_row] 0) = Inr w"
       "analyze_climbing ([reaching_row] ! 0) (previous_row [reaching_row] 0) = Inr c"
    and b: "if 0 < s + w + c
      then analyze_frame [reaching_row] 0 =
             Inr [(''sitting'', normalize s (s + w + c)),
                  (''walking'', normalize w (s + w + c)),
                  (''climbing'', normalize c (s + w + c))] \<and>
           \<bar>normalize s (s + w + c) - real_of_int s / real_of_int (s + w + c) * 100\<bar>
             \<le> 1 / 2 ^ 45 \<and>
           \<bar>normalize w (s + w + c) - real_of_int w / real_of_int (s + w + c) * 100\<bar>
             \<le> 1 / 2 ^ 45 \<and>
           \<bar>normalize c (s + w + c) - real_of_int c / real_of_int (s + w + c) * 100\<bar>
             \<le> 1 / 2 ^ 45 \<and>
           \<bar>normalize s (s + w + c) + normalize w (s + w + c) + normalize c (s + w + c)
              - 100\<bar> \<le> 1 / 2 ^ 45
      else s = 0 \<and> w = 0 \<and> c = 0 \<and>
           analyze_frame [reaching_row] 0 =
             Inr [(''sitting'', 0), (''walking'', 0), (''climbing'', 0)]"
    by blast
  from a have v: "s = 35" "w = 0" "c = 70"
    by (simp_all add: previous_row_def analyze_sitting_eq analyze_walking_eq analyze_climbing_eq
        reaching_row_sitting reaching_row_walking reaching_row_climbing)
  from b show ?thesis
    unfolding v by (simp add: normalize_thirds)
qed

text \<open>
  C2, as the claim has it, fails: the confidences do not always add up to exactly 100.
  On the row \<open>reaching_row\<close> the raw scores 35, 0 and 70 give the doubles
  33.33333333333333 and 66.66666666666666, whose sum is below 100.
\<close>

theorem confidences_can_sum_below_100:
  "analyze_frame [reaching_row] 0 =
     Inr [(''sitting'', 4691249611844266 / 2 ^ 47), (''walking'', 0),
          (''climbing'', 4691249611844266 / 2 ^ 46)] \<and>
   raw_total reaching_row None = 105 \<and>
   (4691249611844266 / 2 ^ 47 + 0 + 4691249611844266 / 2 ^ 46 :: real) \<noteq> 100"
  by (simp add: analyze_frame_eq previous_row_def reaching_row_first raw_total_def
      reaching_row_sitting reaching_row_walking reaching_row_climbing)

end
